theory Spec2Isabelle
  imports Main "HOL-Library.AList" "HOL-Library.Multiset" "HOL-Library.Word"
begin


section \<open>Go library functions used by the manifest code\<close>

text \<open>
  The manifest code of the \<open>dxfuse\<close> package calls \<open>strings.HasPrefix\<close>,
  \<open>strings.Count\<close>, \<open>filepath.Clean\<close>, \<open>filepath.Dir\<close>, \<open>filepath.Split\<close> and
  \<open>sort.Sort\<close> of the Go standard library. They are embedded here as they behave on a
  Unix system, where the path separator is the slash and there are no volume names. A Go
  string is a sequence of bytes, a \<open>string\<close> here; an \<open>int64\<close> is a 64-bit word.
\<close>

type_synonym int64 = "64 word"

text \<open>
  \<open>strings.HasPrefix(s, prefix)\<close>:
  \<open>len(s) >= len(prefix) && s[0:len(prefix)] == prefix\<close>.
\<close>

definition HasPrefix :: "string \<Rightarrow> string \<Rightarrow> bool" where
  "HasPrefix s pre = (length pre \<le> length s \<and> take (length pre) s = pre)"

text \<open>
  \<open>strings.Count(s, sep)\<close> for a separator of one byte, the only use in the source
  (\<open>strings.Count(d.elems[i], "/")\<close>): the number of occurrences of the byte.
\<close>

definition Count :: "string \<Rightarrow> char \<Rightarrow> nat" where
  "Count s sep = length (filter (\<lambda>c. c = sep) s)"

text \<open>
  \<open>filepath.Clean\<close> works on a buffer \<open>out\<close> of the bytes written so far (its length is the
  write index \<open>w\<close> of the Go code), reads the path from index \<open>r\<close> (here the rest of the
  path still to be read) and keeps in \<open>dotdot\<close> the index below which a \<open>..\<close> element must
  not remove anything. \<open>backtrack\<close> is the inner loop of the \<open>..\<close> case, which steps \<open>w\<close>
  back to the previous separator: it is entered with \<open>w\<close> already decremented once.
  \<open>clean_loop\<close> is the main loop, its four cases in the order of the Go \<open>switch\<close>: an empty
  element, a \<open>.\<close> element, a \<open>..\<close> element, and a real element, which is copied up to the
  next separator.
\<close>

definition IsPathSeparator :: "char \<Rightarrow> bool" where
  "IsPathSeparator c = (c = CHR ''/'')"

fun backtrack :: "nat \<Rightarrow> string \<Rightarrow> nat \<Rightarrow> nat" where
  "backtrack dotdot buf w =
     (if w > dotdot \<and> \<not> IsPathSeparator (buf ! w) then backtrack dotdot buf (w - 1) else w)"

declare backtrack.simps [simp del]

function clean_loop :: "bool \<Rightarrow> string \<Rightarrow> string \<Rightarrow> nat \<Rightarrow> string" where
  "clean_loop rooted [] out dotdot = out"
| "clean_loop rooted (c # rest) out dotdot =
     (if IsPathSeparator c then clean_loop rooted rest out dotdot
      else if c = CHR ''.'' \<and> (rest = [] \<or> IsPathSeparator (hd rest))
        then clean_loop rooted rest out dotdot
      else if c = CHR ''.'' \<and> rest \<noteq> [] \<and> hd rest = CHR ''.''
              \<and> (tl rest = [] \<or> IsPathSeparator (hd (tl rest)))
        then (if length out > dotdot
                then clean_loop rooted (tl rest)
                       (take (backtrack dotdot out (length out - 1)) out) dotdot
              else if \<not> rooted
                then clean_loop rooted (tl rest)
                       ((if length out > 0 then out @ ''/'' else out) @ ''..'')
                       (length ((if length out > 0 then out @ ''/'' else out) @ ''..''))
              else clean_loop rooted (tl rest) out dotdot)
      else clean_loop rooted (dropWhile (\<lambda>x. \<not> IsPathSeparator x) rest)
             ((if (rooted \<and> length out \<noteq> 1) \<or> (\<not> rooted \<and> length out \<noteq> 0)
                 then out @ ''/'' else out)
              @ c # takeWhile (\<lambda>x. \<not> IsPathSeparator x) rest)
             dotdot)"
  by pat_completeness auto
termination
  by (relation "measure (\<lambda>(rooted, path, out, dotdot). length path)")
     (auto simp: length_dropWhile_le less_Suc_eq_le)

text \<open>
  \<open>filepath.Clean\<close>: the empty path becomes \<open>.\<close>; a rooted path starts the buffer with a
  separator and reads from index 1; an empty result becomes \<open>.\<close>.
\<close>

definition filepath_Clean :: "string \<Rightarrow> string" where
  "filepath_Clean path =
     (if path = [] then ''.''
      else let rooted = IsPathSeparator (hd path);
               out = (if rooted then clean_loop True (tl path) ''/'' 1
                      else clean_loop False path [] 0)
           in if out = [] then ''.'' else out)"

text \<open>
  \<open>filepath.IsAbs\<close> on Unix: the path begins with a slash.
\<close>

definition IsAbs :: "string \<Rightarrow> bool" where
  "IsAbs p = (p \<noteq> [] \<and> IsPathSeparator (hd p))"

text \<open>
  \<open>filepath.Split\<close> cuts the path after its last separator; \<open>filepath.Dir\<close> cleans the
  part before the cut.
\<close>

definition filepath_Split :: "string \<Rightarrow> string \<times> string" where
  "filepath_Split path =
     (rev (dropWhile (\<lambda>x. \<not> IsPathSeparator x) (rev path)),
      rev (takeWhile (\<lambda>x. \<not> IsPathSeparator x) (rev path)))"

definition filepath_Dir :: "string \<Rightarrow> string" where
  "filepath_Dir path = filepath_Clean (fst (filepath_Split path))"


section \<open>The manifest\<close>

text \<open>
  The three structs of the manifest, with the fields in the order of the source. Fields
  that the user may leave out hold the zero value of their type.
\<close>

record ManifestFile =
  ProjId :: string
  FileId :: string
  Parent :: string
  Fname :: string
  Size :: int64
  CtimeMillisec :: int64
  MtimeMillisec :: int64

record ManifestDir =
  ProjId :: string
  Folder :: string
  Dirname :: string
  CtimeMillisec :: int64
  MtimeMillisec :: int64

record Manifest =
  Files :: "ManifestFile list"
  Directories :: "ManifestDir list"

text \<open>
  The source reports failures as \<open>error\<close> values built by \<open>fmt.Errorf\<close>; the model has one
  constructor for each place that builds one, named after the error kinds of the
  specification. The four errors of \<open>Validate\<close> are the \<open>InvalidManifest\<close> errors.
  \<open>Panic\<close> stands for the \<open>panic\<close> of \<open>ancestors\<close>, \<open>UnmarshalTypeError\<close> for a decoding error
  of \<open>json.Unmarshal\<close>, \<open>RemoteError\<close> for an error of a describe call. No place in the
  source builds an \<open>InvalidMountPath\<close> error; the constructor is there so that the
  specification's error can be named.

  A call that may fail and may also not return has a result of type \<open>'a result\<close>:
  \<open>None\<close> when the call does not return, \<open>Some (Inl e)\<close> for the error \<open>e\<close>,
  \<open>Some (Inr x)\<close> for the value \<open>x\<close>.
\<close>

datatype invalid =
    InvalidProjectId string
  | InvalidFileId string
  | EmptyDirectory string
  | NoLeadingSlash string

datatype error =
    InvalidManifest invalid
  | DuplicateMount string
  | IllegalMountNotLeaf string "string list"
  | InvalidMountPath string
  | Panic string
  | UnmarshalTypeError
  | RemoteError string

type_synonym 'a result = "(error + 'a) option"

section \<open>The directory skeleton\<close>

text \<open>
  \<open>ancestors\<close> calls itself on \<open>filepath.Dir p\<close> until it reaches the empty path or the
  root. For a relative path it never does (\<open>filepath.Dir "." = "."\<close>), and the Go program
  overflows its stack; the model has no result there.
\<close>

partial_function (option) ancestors :: "string \<Rightarrow> string list result" where
  "ancestors p =
     (if p = [] \<or> p = ''/'' then Some (Inr [''/''])
      else Option.bind (ancestors (filepath_Dir p))
             (\<lambda>r. case r of
                    Inl e \<Rightarrow> Some (Inl e)
                  | Inr ators \<Rightarrow>
                      if length ators = 0 then Some (Inl (Panic p))
                      else Some (Inr (ators @ [filepath_Clean p]))))"

declare ancestors.simps [code]

text \<open>
  The maps \<open>tree\<close> and \<open>allDirs\<close> of \<open>DirSkeleton\<close>, of type \<open>map[string]bool\<close>, are
  association lists. \<open>record_all\<close> is the inner loop \<open>tree[p] = true\<close> over the ancestors;
  \<open>DirSkeleton_files\<close> is the loop over the files, \<open>DirSkeleton_dirs\<close> the loop over the
  directories with its check that no mount path is used twice, \<open>DirSkeleton_leaves\<close> the
  final loop, which checks that no mount path is a key of \<open>tree\<close>.
\<close>

definition record_all :: "string list \<Rightarrow> (string \<times> bool) list \<Rightarrow> (string \<times> bool) list" where
  "record_all ps tree = foldl (\<lambda>t p. AList.update p True t) tree ps"

fun DirSkeleton_files :: "ManifestFile list \<Rightarrow> (string \<times> bool) list \<Rightarrow> (string \<times> bool) list result" where
  "DirSkeleton_files [] tree = Some (Inr tree)"
| "DirSkeleton_files (file # files) tree =
     Option.bind (ancestors (Parent file))
       (\<lambda>r. case r of
              Inl e \<Rightarrow> Some (Inl e)
            | Inr ps \<Rightarrow> DirSkeleton_files files (record_all ps tree))"

fun DirSkeleton_dirs ::
  "ManifestDir list \<Rightarrow> (string \<times> bool) list \<Rightarrow> (string \<times> bool) list
     \<Rightarrow> ((string \<times> bool) list \<times> (string \<times> bool) list) result" where
  "DirSkeleton_dirs [] tree allDirs = Some (Inr (tree, allDirs))"
| "DirSkeleton_dirs (d # ds) tree allDirs =
     Option.bind (ancestors (fst (filepath_Split (Dirname d))))
       (\<lambda>r. case r of
              Inl e \<Rightarrow> Some (Inl e)
            | Inr ps \<Rightarrow>
                if map_of allDirs (Dirname d) \<noteq> None
                  then Some (Inl (DuplicateMount (Dirname d)))
                else DirSkeleton_dirs ds (record_all ps tree)
                       (AList.update (Dirname d) True allDirs))"

fun DirSkeleton_leaves :: "ManifestDir list \<Rightarrow> (string \<times> bool) list \<Rightarrow> string list \<Rightarrow> error option" where
  "DirSkeleton_leaves [] tree elems = None"
| "DirSkeleton_leaves (d # ds) tree elems =
     (if map_of tree (Dirname d) \<noteq> None then Some (IllegalMountNotLeaf (Dirname d) elems)
      else DirSkeleton_leaves ds tree elems)"

text \<open>
  Go iterates over the keys of a map in an order it does not specify, and \<open>sort.Sort\<close> is
  not stable. The order of iteration is a parameter \<open>ro\<close> of the model, a function that
  permutes the list of keys (\<open>range_order\<close>); the sort is the stable insertion sort by the
  number of separators. Every list that is sorted by that number is the stable sort of
  itself, so over all orders of iteration the model produces every outcome that an
  unstable sort can produce.
\<close>

definition range_order :: "(string list \<Rightarrow> string list) \<Rightarrow> bool" where
  "range_order ro = (\<forall>ks. mset (ro ks) = mset ks)"

definition Sort :: "string list \<Rightarrow> string list" where
  "Sort elems = sort_key (\<lambda>e. Count e CHR ''/'') elems"

definition DirSkeleton :: "(string list \<Rightarrow> string list) \<Rightarrow> Manifest \<Rightarrow> string list result" where
  "DirSkeleton ro m =
     Option.bind (DirSkeleton_files (Files m) [])
       (\<lambda>r. case r of
              Inl e \<Rightarrow> Some (Inl e)
            | Inr tree0 \<Rightarrow>
                Option.bind (DirSkeleton_dirs (Directories m) tree0 [])
                  (\<lambda>r. case r of
                         Inl e \<Rightarrow> Some (Inl e)
                       | Inr (tree, allDirs) \<Rightarrow>
                           let elements = ro (map fst tree);
                               de = Sort elements;
                               retval = filter (\<lambda>e. e \<noteq> ''/'') de
                           in (case DirSkeleton_leaves (Directories m) tree de of
                                 Some e \<Rightarrow> Some (Inl e)
                               | None \<Rightarrow> Some (Inr retval))))"

section \<open>Validation and normalisation\<close>

text \<open>
  \<open>validateDirName\<close>, \<open>validProject\<close> and \<open>Validate\<close>, which returns the first error it
  meets, in the files first and then in the directories; \<open>None\<close> is Go's \<open>nil\<close>.
\<close>

definition validateDirName :: "string \<Rightarrow> error option" where
  "validateDirName p =
     (if length p = 0 then Some (InvalidManifest (EmptyDirectory p))
      else if p ! 0 \<noteq> CHR ''/'' then Some (InvalidManifest (NoLeadingSlash p))
      else None)"

definition validProject :: "string \<Rightarrow> bool" where
  "validProject pId =
     (if HasPrefix pId ''project-'' then True
      else if HasPrefix pId ''container-'' then True
      else False)"

fun Validate_files :: "ManifestFile list \<Rightarrow> error option" where
  "Validate_files [] = None"
| "Validate_files (fl # fls) =
     (if \<not> validProject (ManifestFile.ProjId fl)
        then Some (InvalidManifest (InvalidProjectId (ManifestFile.ProjId fl)))
      else if \<not> HasPrefix (FileId fl) ''file-''
        then Some (InvalidManifest (InvalidFileId (FileId fl)))
      else case validateDirName (Parent fl) of
             Some err \<Rightarrow> Some err
           | None \<Rightarrow> Validate_files fls)"

fun Validate_dirs :: "ManifestDir list \<Rightarrow> error option" where
  "Validate_dirs [] = None"
| "Validate_dirs (d # ds) =
     (if \<not> validProject (ManifestDir.ProjId d)
        then Some (InvalidManifest (InvalidProjectId (ManifestDir.ProjId d)))
      else case validateDirName (Dirname d) of
             Some err \<Rightarrow> Some err
           | None \<Rightarrow> Validate_dirs ds)"

definition Validate :: "Manifest \<Rightarrow> error option" where
  "Validate m =
     (case Validate_files (Files m) of
        Some err \<Rightarrow> Some err
      | None \<Rightarrow> Validate_dirs (Directories m))"

text \<open>
  \<open>Manifest.Clean\<close> replaces each parent path and each mount path by its cleaned form.
\<close>

definition Clean :: "Manifest \<Rightarrow> Manifest" where
  "Clean m =
     m\<lparr>Files := map (\<lambda>fl. fl\<lparr>Parent := filepath_Clean (Parent fl)\<rparr>) (Files m),
       Directories := map (\<lambda>d. d\<lparr>Dirname := filepath_Clean (Dirname d)\<rparr>) (Directories m)\<rparr>"

section \<open>The manifest file format\<close>

text \<open>
  \<open>ReadManifest\<close> reads the file, decodes it with \<open>json.Unmarshal\<close> into a \<open>Manifest\<close>,
  validates and cleans. Reading the file and parsing the JSON text are left to the
  standard library: the model starts from the parsed document, a \<open>json\<close> value (\<open>JFloat\<close>
  is a number literal that is not an integer). \<open>Unmarshal\<close> follows the \<open>json\<close> tags of
  the structs: a key sets the field with its tag, in the order of the document; \<open>null\<close>
  leaves a field as it is; other keys are skipped; a value of the wrong type, or a number
  outside the range of \<open>int64\<close>, is an error. Keys are compared exactly.
\<close>

datatype json =
    JNull
  | JBool bool
  | JNumber int
  | JFloat string
  | JString string
  | JArray "json list"
  | JObject "(string \<times> json) list"

definition as_string :: "json \<Rightarrow> string \<Rightarrow> error + string" where
  "as_string v cur =
     (case v of JString s \<Rightarrow> Inr s | JNull \<Rightarrow> Inr cur | _ \<Rightarrow> Inl UnmarshalTypeError)"

definition as_int64 :: "json \<Rightarrow> int64 \<Rightarrow> error + int64" where
  "as_int64 v cur =
     (case v of
        JNumber n \<Rightarrow>
          if - (2 ^ 63) \<le> n \<and> n < 2 ^ 63 then Inr (word_of_int n) else Inl UnmarshalTypeError
      | JNull \<Rightarrow> Inr cur
      | _ \<Rightarrow> Inl UnmarshalTypeError)"

definition file_field :: "ManifestFile \<Rightarrow> string \<times> json \<Rightarrow> error + ManifestFile" where
  "file_field fl kv =
     (let k = fst kv; v = snd kv in
      if k = ''proj_id'' then map_sum id (\<lambda>s. fl\<lparr>ManifestFile.ProjId := s\<rparr>) (as_string v (ManifestFile.ProjId fl))
      else if k = ''file_id'' then map_sum id (\<lambda>s. fl\<lparr>FileId := s\<rparr>) (as_string v (FileId fl))
      else if k = ''parent'' then map_sum id (\<lambda>s. fl\<lparr>Parent := s\<rparr>) (as_string v (Parent fl))
      else if k = ''fname'' then map_sum id (\<lambda>s. fl\<lparr>Fname := s\<rparr>) (as_string v (Fname fl))
      else if k = ''size'' then map_sum id (\<lambda>n. fl\<lparr>ManifestFile.Size := n\<rparr>) (as_int64 v (ManifestFile.Size fl))
      else if k = ''ctime'' then
        map_sum id (\<lambda>n. fl\<lparr>ManifestFile.CtimeMillisec := n\<rparr>) (as_int64 v (ManifestFile.CtimeMillisec fl))
      else if k = ''mtime'' then
        map_sum id (\<lambda>n. fl\<lparr>ManifestFile.MtimeMillisec := n\<rparr>) (as_int64 v (ManifestFile.MtimeMillisec fl))
      else Inr fl)"

definition dir_field :: "ManifestDir \<Rightarrow> string \<times> json \<Rightarrow> error + ManifestDir" where
  "dir_field d kv =
     (let k = fst kv; v = snd kv in
      if k = ''proj_id'' then map_sum id (\<lambda>s. d\<lparr>ManifestDir.ProjId := s\<rparr>) (as_string v (ManifestDir.ProjId d))
      else if k = ''folder'' then map_sum id (\<lambda>s. d\<lparr>Folder := s\<rparr>) (as_string v (Folder d))
      else if k = ''dirname'' then map_sum id (\<lambda>s. d\<lparr>Dirname := s\<rparr>) (as_string v (Dirname d))
      else if k = ''ctime'' then
        map_sum id (\<lambda>n. d\<lparr>ManifestDir.CtimeMillisec := n\<rparr>) (as_int64 v (ManifestDir.CtimeMillisec d))
      else if k = ''mtime'' then
        map_sum id (\<lambda>n. d\<lparr>ManifestDir.MtimeMillisec := n\<rparr>) (as_int64 v (ManifestDir.MtimeMillisec d))
      else Inr d)"

fun decode_fields :: "('a \<Rightarrow> string \<times> json \<Rightarrow> error + 'a) \<Rightarrow> 'a \<Rightarrow> (string \<times> json) list \<Rightarrow> error + 'a" where
  "decode_fields set_field x [] = Inr x"
| "decode_fields set_field x (kv # kvs) =
     (case set_field x kv of Inl err \<Rightarrow> Inl err | Inr y \<Rightarrow> decode_fields set_field y kvs)"

fun decode_elems :: "(json \<Rightarrow> error + 'a) \<Rightarrow> json list \<Rightarrow> error + 'a list" where
  "decode_elems dec [] = Inr []"
| "decode_elems dec (v # vs) =
     (case dec v of
        Inl err \<Rightarrow> Inl err
      | Inr x \<Rightarrow> (case decode_elems dec vs of Inl err \<Rightarrow> Inl err | Inr xs \<Rightarrow> Inr (x # xs)))"

definition Unmarshal_file :: "json \<Rightarrow> error + ManifestFile" where
  "Unmarshal_file v =
     (let zero = \<lparr>ManifestFile.ProjId = [], FileId = [], Parent = [], Fname = [],
                  Size = 0, CtimeMillisec = 0, MtimeMillisec = 0\<rparr>
      in case v of
           JObject kvs \<Rightarrow> decode_fields file_field zero kvs
         | JNull \<Rightarrow> Inr zero
         | _ \<Rightarrow> Inl UnmarshalTypeError)"

definition Unmarshal_dir :: "json \<Rightarrow> error + ManifestDir" where
  "Unmarshal_dir v =
     (let zero = \<lparr>ManifestDir.ProjId = [], Folder = [], Dirname = [],
                  CtimeMillisec = 0, MtimeMillisec = 0\<rparr>
      in case v of
           JObject kvs \<Rightarrow> decode_fields dir_field zero kvs
         | JNull \<Rightarrow> Inr zero
         | _ \<Rightarrow> Inl UnmarshalTypeError)"

definition manifest_field :: "Manifest \<Rightarrow> string \<times> json \<Rightarrow> error + Manifest" where
  "manifest_field m kv =
     (let k = fst kv; v = snd kv in
      if k = ''files'' then
        (case v of
           JArray vs \<Rightarrow> map_sum id (\<lambda>fs. m\<lparr>Files := fs\<rparr>) (decode_elems Unmarshal_file vs)
         | JNull \<Rightarrow> Inr m
         | _ \<Rightarrow> Inl UnmarshalTypeError)
      else if k = ''directories'' then
        (case v of
           JArray vs \<Rightarrow> map_sum id (\<lambda>ds. m\<lparr>Directories := ds\<rparr>) (decode_elems Unmarshal_dir vs)
         | JNull \<Rightarrow> Inr m
         | _ \<Rightarrow> Inl UnmarshalTypeError)
      else Inr m)"

definition Unmarshal :: "json \<Rightarrow> error + Manifest" where
  "Unmarshal data =
     (case data of
        JObject kvs \<Rightarrow> decode_fields manifest_field \<lparr>Files = [], Directories = []\<rparr> kvs
      | JNull \<Rightarrow> Inr \<lparr>Files = [], Directories = []\<rparr>
      | _ \<Rightarrow> Inl UnmarshalTypeError)"

definition ReadManifest :: "json \<Rightarrow> error + Manifest" where
  "ReadManifest data =
     (case Unmarshal data of
        Inl err \<Rightarrow> Inl err
      | Inr mRaw \<Rightarrow>
          (case Validate mRaw of
             Some err \<Rightarrow> Inl err
           | None \<Rightarrow> Inr (Clean mRaw)))"





section \<open>Filling in missing fields\<close>

text \<open>
  \<open>FillInMissingFields\<close> calls \<open>DxDescribeBulkObjects\<close> and \<open>DxDescribeProject\<close>, which
  are not among the source files given; they are parameters of the model. Of the records
  they return, the model has the fields that \<open>FillInMissingFields\<close> reads. The calls made
  are collected in a list, in order. The manifest is updated in place in the source, so
  the model returns it together with the error: when a project cannot be described, the
  files have already been filled in.
\<close>

record DxDescribeDataObject =
  Name :: string
  Size :: int64
  CtimeMillisec :: int64
  MtimeMillisec :: int64

record DxDescribePrj =
  Id :: string
  Name :: string
  CtimeMillisec :: int64
  MtimeMillisec :: int64










section \<open>Vocabulary of the properties\<close>

text \<open>
  \<open>path_prefix p q\<close>: the path \<open>q\<close> continues \<open>p\<close> with a separator, so \<open>p\<close> is an ancestor
  directory of \<open>q\<close>. \<open>dir_chain xs\<close>: every element of \<open>xs\<close> is the \<open>filepath.Dir\<close> of the
  next. A canonical absolute path is \<open>render cs\<close> for a list \<open>cs\<close> of real path elements
  (\<open>element\<close>); \<open>slack\<close> is the one byte that \<open>clean_loop\<close> may still have to write for a
  separator before the element it is about to copy.
\<close>

definition element :: "string \<Rightarrow> bool" where
  "element c = (c \<noteq> [] \<and> list_all (\<lambda>x. \<not> IsPathSeparator x) c \<and> c \<noteq> ''.'' \<and> c \<noteq> ''..'')"

definition render :: "string list \<Rightarrow> string" where
  "render cs = (if cs = [] then ''/'' else concat (map (\<lambda>c. CHR ''/'' # c) cs))"

definition slack :: "string \<Rightarrow> string \<Rightarrow> nat" where
  "slack rest out = (if rest = [] \<or> IsPathSeparator (hd rest) \<or> length out = 1 then 0 else 1)"

fun dir_chain :: "string list \<Rightarrow> bool" where
  "dir_chain [] = True"
| "dir_chain [x] = True"
| "dir_chain (x # y # ys) = (x = filepath_Dir y \<and> dir_chain (y # ys))"


definition path_prefix :: "string \<Rightarrow> string \<Rightarrow> bool" where
  "path_prefix p q =
     (length p < length q \<and> take (length p) q = p \<and> q ! length p = CHR ''/'')"

definition fails_DuplicateMount :: "'a result \<Rightarrow> bool" where
  "fails_DuplicateMount r = (case r of Some (Inl (DuplicateMount p)) \<Rightarrow> True | _ \<Rightarrow> False)"

definition fails_IllegalMountNotLeaf :: "'a result \<Rightarrow> bool" where
  "fails_IllegalMountNotLeaf r =
     (case r of Some (Inl (IllegalMountNotLeaf p es)) \<Rightarrow> True | _ \<Rightarrow> False)"

definition fails_InvalidMountPath :: "'a result \<Rightarrow> bool" where
  "fails_InvalidMountPath r = (case r of Some (Inl (InvalidMountPath p)) \<Rightarrow> True | _ \<Rightarrow> False)"

definition is_InvalidManifest :: "error \<Rightarrow> bool" where
  "is_InvalidManifest e = (case e of InvalidManifest i \<Rightarrow> True | _ \<Rightarrow> False)"

text \<open>
  Entries and remote answers for the examples.
\<close>

definition mount :: "string \<Rightarrow> ManifestDir" where
  "mount p = \<lparr>ManifestDir.ProjId = ''project-1'', Folder = ''/'', Dirname = p,
              CtimeMillisec = 0, MtimeMillisec = 0\<rparr>"

definition file_in :: "string \<Rightarrow> string \<Rightarrow> ManifestFile" where
  "file_in pId p = \<lparr>ManifestFile.ProjId = pId, FileId = ''file-1'', Parent = p, Fname = ''f'',
                    Size = 1, CtimeMillisec = 1, MtimeMillisec = 1\<rparr>"









section \<open>The length of a cleaned path\<close>

text \<open>
  For a rooted path \<open>filepath.Clean\<close> never writes more bytes than it has read, and
  writes fewer when the path ends with a separator. This is what makes \<open>ancestors\<close>
  return on absolute paths.
\<close>

lemma backtrack_le: "backtrack dd buf w \<le> w"
proof (induction dd buf w rule: backtrack.induct)
  case (1 dotdot buf w)
  then show ?case
    by (subst backtrack.simps) (auto simp: le_diff_conv)
qed

lemma backtrack_ge: "dd \<le> w \<Longrightarrow> dd \<le> backtrack dd buf w"
proof (induction dd buf w rule: backtrack.induct)
  case (1 dotdot buf w)
  then show ?case
    by (subst backtrack.simps) auto
qed


lemma clean_loop_length:
  "rooted \<Longrightarrow> length (clean_loop rooted rest out dd) \<le> length out + length rest + slack rest out"
proof (induction rooted rest out dd rule: clean_loop.induct)
  case (1 rooted out dotdot)
  then show ?case by simp
next
  case (2 rooted c rest out dotdot)
  let ?tw = "takeWhile (\<lambda>x. \<not> IsPathSeparator x) rest"
  let ?dw = "dropWhile (\<lambda>x. \<not> IsPathSeparator x) rest"
  have len: "length ?tw + length ?dw = length rest"
    by (metis length_append takeWhile_dropWhile_id)
  have dw: "?dw = [] \<or> IsPathSeparator (hd ?dw)"
    using hd_dropWhile[of "\<lambda>x. \<not> IsPathSeparator x" rest] by auto
  consider (sep) "IsPathSeparator c"
    | (dot) "\<not> IsPathSeparator c" "c = CHR ''.'' \<and> (rest = [] \<or> IsPathSeparator (hd rest))"
    | (dotdot) "\<not> IsPathSeparator c" "\<not> (c = CHR ''.'' \<and> (rest = [] \<or> IsPathSeparator (hd rest)))"
        "c = CHR ''.'' \<and> rest \<noteq> [] \<and> hd rest = CHR ''.'' \<and> (tl rest = [] \<or> IsPathSeparator (hd (tl rest)))"
    | (elem) "\<not> IsPathSeparator c" "\<not> (c = CHR ''.'' \<and> (rest = [] \<or> IsPathSeparator (hd rest)))"
        "\<not> (c = CHR ''.'' \<and> rest \<noteq> [] \<and> hd rest = CHR ''.'' \<and> (tl rest = [] \<or> IsPathSeparator (hd (tl rest))))"
    by blast
  then show ?case
  proof cases
    case sep
    have "slack rest out \<le> 1" by (simp add: slack_def)
    with sep 2(1)[OF sep] 2(7) show ?thesis by (simp add: slack_def)
  next
    case dot
    have "slack rest out = 0" using dot by (auto simp: slack_def)
    with dot 2(2)[OF dot] 2(7) show ?thesis by simp
  next
    case dotdot
    have s0: "slack (tl rest) out' = 0" for out' using dotdot by (auto simp: slack_def)
    have lt: "length (tl rest) < length rest" using dotdot by (cases rest) auto
    show ?thesis
    proof (cases "length out > dotdot")
      case True
      have "length (take (backtrack dotdot out (length out - 1)) out) \<le> length out"
        by simp
      with True dotdot 2(3)[OF dotdot True] 2(7) s0 lt show ?thesis by simp
    next
      case False
      with dotdot 2(5)[OF dotdot False] 2(7) s0 lt show ?thesis by simp
    qed
  next
    case elem
    have s0: "slack ?dw out' = 0" for out' using dw by (auto simp: slack_def)
    from elem 2(6)[OF elem] 2(7) s0[of "(if length out \<noteq> 1 then out @ ''/'' else out) @ c # ?tw"] len
    show ?thesis by (auto simp: slack_def)
  qed
qed


lemma last_dropWhile_sep:
  "rest \<noteq> [] \<Longrightarrow> IsPathSeparator (last rest) \<Longrightarrow>
   dropWhile (\<lambda>x. \<not> IsPathSeparator x) rest \<noteq> [] \<and>
   last (dropWhile (\<lambda>x. \<not> IsPathSeparator x) rest) = last rest"
proof (induction rest)
  case Nil
  then show ?case by simp
next
  case (Cons a rest)
  then show ?case by (cases "rest = []") auto
qed

lemma clean_loop_length_strict:
  "rooted \<Longrightarrow> rest \<noteq> [] \<Longrightarrow> IsPathSeparator (last rest) \<Longrightarrow>
   length (clean_loop rooted rest out dd) < length out + length rest + slack rest out"
proof (induction rooted rest out dd rule: clean_loop.induct)
  case (1 rooted out dotdot)
  then show ?case by simp
next
  case (2 rooted c rest out dotdot)
  let ?tw = "takeWhile (\<lambda>x. \<not> IsPathSeparator x) rest"
  let ?dw = "dropWhile (\<lambda>x. \<not> IsPathSeparator x) rest"
  have len: "length ?tw + length ?dw = length rest"
    by (metis length_append takeWhile_dropWhile_id)
  have dw: "?dw = [] \<or> IsPathSeparator (hd ?dw)"
    using hd_dropWhile[of "\<lambda>x. \<not> IsPathSeparator x" rest] by auto
  note rooted = \<open>rooted\<close>
  have lastc: "IsPathSeparator (last (c # rest))" by fact
  consider (sep) "IsPathSeparator c"
    | (dot) "\<not> IsPathSeparator c" "c = CHR ''.'' \<and> (rest = [] \<or> IsPathSeparator (hd rest))"
    | (dotdot) "\<not> IsPathSeparator c" "\<not> (c = CHR ''.'' \<and> (rest = [] \<or> IsPathSeparator (hd rest)))"
        "c = CHR ''.'' \<and> rest \<noteq> [] \<and> hd rest = CHR ''.'' \<and> (tl rest = [] \<or> IsPathSeparator (hd (tl rest)))"
    | (elem) "\<not> IsPathSeparator c" "\<not> (c = CHR ''.'' \<and> (rest = [] \<or> IsPathSeparator (hd rest)))"
        "\<not> (c = CHR ''.'' \<and> rest \<noteq> [] \<and> hd rest = CHR ''.'' \<and> (tl rest = [] \<or> IsPathSeparator (hd (tl rest))))"
    by blast
  then show ?case
  proof cases
    case sep
    show ?thesis
    proof (cases "rest = []")
      case True
      with sep show ?thesis by (simp add: slack_def)
    next
      case False
      then have "IsPathSeparator (last rest)" using lastc by simp
      from 2(1)[OF sep rooted False this] have
        "length (clean_loop rooted rest out dotdot) < length out + length rest + slack rest out" .
      moreover have "slack rest out \<le> 1" by (simp add: slack_def)
      ultimately show ?thesis using sep by (simp add: slack_def)
    qed
  next
    case dot
    have ne: "rest \<noteq> []" using dot(1) lastc by auto
    then have l: "IsPathSeparator (last rest)" using lastc by simp
    have "slack rest out = 0" using dot ne by (auto simp: slack_def)
    with dot 2(2)[OF dot rooted ne l] show ?thesis by simp
  next
    case dotdot
    have s0: "slack (tl rest) out' = 0" for out' using dotdot by (auto simp: slack_def)
    have lt: "length (tl rest) < length rest" using dotdot by (cases rest) auto
    have ne: "tl rest \<noteq> []"
    proof
      assume "tl rest = []"
      then have "rest = [CHR ''.'']" using dotdot by (cases rest) auto
      then show False using lastc by (simp add: IsPathSeparator_def)
    qed
    then have l: "IsPathSeparator (last (tl rest))" using lastc dotdot
      by (cases rest) auto
    show ?thesis
    proof (cases "length out > dotdot")
      case True
      have "length (take (backtrack dotdot out (length out - 1)) out) \<le> length out"
        by simp
      with True dotdot 2(3)[OF dotdot True rooted ne l] s0 lt show ?thesis by simp
    next
      case False
      have nn: "\<not> \<not> rooted" using rooted by simp
      from False dotdot 2(5)[OF dotdot False nn rooted ne l] s0 lt rooted show ?thesis by simp
    qed
  next
    case elem
    have ne0: "rest \<noteq> []" using elem(1) lastc by auto
    then have l0: "IsPathSeparator (last rest)" using lastc by simp
    from last_dropWhile_sep[OF ne0 l0] have ne: "?dw \<noteq> []" and l: "IsPathSeparator (last ?dw)"
      using l0 by auto
    have s0: "slack ?dw out' = 0" for out' using dw by (auto simp: slack_def)
    from elem 2(6)[OF elem rooted ne l] s0[of "(if length out \<noteq> 1 then out @ ''/'' else out) @ c # ?tw"] len rooted
    show ?thesis by (auto simp: slack_def)
  qed
qed


section \<open>Canonical paths\<close>

text \<open>
  A cleaned rooted path is \<open>render cs\<close> for a list of real path elements, and
  \<open>filepath.Clean\<close> leaves such a path as it is; so it is idempotent on absolute paths.
\<close>

lemma backtrack_stop:
  "list_all (\<lambda>x. \<not> IsPathSeparator x) suf \<Longrightarrow> k \<le> length suf \<Longrightarrow> dd \<le> length pre \<Longrightarrow>
   length pre \<le> dd \<or> IsPathSeparator c \<Longrightarrow>
   backtrack dd (pre @ c # suf) (length pre + k) = length pre"
proof (induction k)
  case 0
  then show ?case by (subst backtrack.simps) auto
next
  case (Suc k)
  have "(pre @ c # suf) ! (length pre + Suc k) = suf ! k"
    by (simp add: nth_append)
  moreover have "\<not> IsPathSeparator (suf ! k)"
    using Suc.prems(1,2) by (simp add: list_all_length)
  ultimately show ?case
    using Suc by (subst backtrack.simps) auto
qed

lemma render_snoc:
  "render (ds @ [d]) = (if ds = [] then [] else render ds) @ CHR ''/'' # d"
  by (simp add: render_def)

lemma length_render_ge2: "ds \<noteq> [] \<Longrightarrow> list_all element ds \<Longrightarrow> 2 \<le> length (render ds)"
  by (cases ds) (auto simp: render_def element_def Suc_le_eq)

lemma backtrack_render:
  assumes "list_all element (ds @ [d])"
  shows "take (backtrack 1 (render (ds @ [d])) (length (render (ds @ [d])) - 1)) (render (ds @ [d]))
         = render ds"
proof (cases "ds = []")
  case True
  from assms obtain c suf where d: "d = c # suf" and suf: "list_all (\<lambda>x. \<not> IsPathSeparator x) suf"
    by (cases d) (auto simp: element_def)
  have "backtrack 1 (''/'' @ c # suf) (length ''/'' + length suf) = length ''/''"
    by (rule backtrack_stop[OF suf]) simp_all
  then show ?thesis using True d by (simp add: render_def)
next
  case False
  from assms have d: "list_all (\<lambda>x. \<not> IsPathSeparator x) d" and ds: "list_all element ds"
    by (auto simp: element_def)
  have "backtrack 1 (render ds @ CHR ''/'' # d) (length (render ds) + length d) = length (render ds)"
    by (rule backtrack_stop[OF d]) (use length_render_ge2[OF False ds] in \<open>simp_all add: IsPathSeparator_def\<close>)
  then show ?thesis using False by (simp add: render_snoc)
qed


lemma clean_loop_sep:
  "clean_loop r (CHR ''/'' # rest) out dd = clean_loop r rest out dd"
  by (simp add: IsPathSeparator_def)

lemma clean_loop_dot:
  "t = [] \<or> IsPathSeparator (hd t) \<Longrightarrow>
   clean_loop r (CHR ''.'' # t) out dd = clean_loop r t out dd"
  by (auto simp: IsPathSeparator_def)

lemma clean_loop_dotdot_back:
  "t = [] \<or> IsPathSeparator (hd t) \<Longrightarrow> dd < length out \<Longrightarrow>
   clean_loop r (CHR ''.'' # CHR ''.'' # t) out dd =
     clean_loop r t (take (backtrack dd out (length out - 1)) out) dd"
  by (auto simp: IsPathSeparator_def)

lemma clean_loop_dotdot_root:
  "t = [] \<or> IsPathSeparator (hd t) \<Longrightarrow> \<not> dd < length out \<Longrightarrow>
   clean_loop True (CHR ''.'' # CHR ''.'' # t) out dd = clean_loop True t out dd"
  by (auto simp: IsPathSeparator_def)

lemma clean_loop_elem:
  "\<not> IsPathSeparator c \<Longrightarrow>
   \<not> (c = CHR ''.'' \<and> (rest = [] \<or> IsPathSeparator (hd rest))) \<Longrightarrow>
   \<not> (c = CHR ''.'' \<and> rest \<noteq> [] \<and> hd rest = CHR ''.'' \<and>
        (tl rest = [] \<or> IsPathSeparator (hd (tl rest)))) \<Longrightarrow>
   clean_loop r (c # rest) out dd =
     clean_loop r (dropWhile (\<lambda>x. \<not> IsPathSeparator x) rest)
       ((if (r \<and> length out \<noteq> 1) \<or> (\<not> r \<and> length out \<noteq> 0) then out @ ''/'' else out)
        @ c # takeWhile (\<lambda>x. \<not> IsPathSeparator x) rest) dd"
  by (subst clean_loop.simps) (simp only: if_False)


lemma length_render_1: "list_all element ds \<Longrightarrow> length (render ds) = 1 \<longleftrightarrow> ds = []"
  using length_render_ge2[of ds] by (auto simp: render_def)

lemma clean_loop_canonical:
  "rooted \<Longrightarrow> dd = 1 \<Longrightarrow> list_all element ds \<Longrightarrow> out = render ds \<Longrightarrow>
   \<exists>es. list_all element es \<and> clean_loop rooted rest out dd = render es"
proof (induction rooted rest out dd arbitrary: ds rule: clean_loop.induct)
  case (1 rooted out dotdot)
  then show ?case by auto
next
  case (2 rooted c rest out dotdot)
  let ?tw = "takeWhile (\<lambda>x. \<not> IsPathSeparator x) rest"
  let ?dw = "dropWhile (\<lambda>x. \<not> IsPathSeparator x) rest"
  note rooted = \<open>rooted\<close> and dd = \<open>dotdot = 1\<close> and ds = \<open>list_all element ds\<close>
    and out = \<open>out = render ds\<close>
  consider (sep) "IsPathSeparator c"
    | (dot) "\<not> IsPathSeparator c" "c = CHR ''.'' \<and> (rest = [] \<or> IsPathSeparator (hd rest))"
    | (dotdot) "\<not> IsPathSeparator c" "\<not> (c = CHR ''.'' \<and> (rest = [] \<or> IsPathSeparator (hd rest)))"
        "c = CHR ''.'' \<and> rest \<noteq> [] \<and> hd rest = CHR ''.'' \<and> (tl rest = [] \<or> IsPathSeparator (hd (tl rest)))"
    | (elem) "\<not> IsPathSeparator c" "\<not> (c = CHR ''.'' \<and> (rest = [] \<or> IsPathSeparator (hd rest)))"
        "\<not> (c = CHR ''.'' \<and> rest \<noteq> [] \<and> hd rest = CHR ''.'' \<and> (tl rest = [] \<or> IsPathSeparator (hd (tl rest))))"
    by blast
  then show ?case
  proof cases
    case sep
    from 2(1)[OF sep rooted dd ds out] sep show ?thesis by simp
  next
    case dot
    from 2(2)[OF dot rooted dd ds out] dot show ?thesis by simp
  next
    case dotdot
    show ?thesis
    proof (cases "length out > dotdot")
      case True
      then have "ds \<noteq> []" using out dd by (auto simp: render_def)
      then obtain ds' d where dsd: "ds = ds' @ [d]" by (metis rev_exhaust)
      have ds': "list_all element ds'" using ds dsd by simp
      have bt: "take (backtrack dotdot out (length out - 1)) out = render ds'"
        using backtrack_render[of ds' d] ds dsd out dd by simp
      from dotdot obtain t where rest: "rest = CHR ''.'' # t" and t: "t = [] \<or> IsPathSeparator (hd t)"
        by (cases rest) auto
      from 2(3)[OF dotdot True rooted dd ds' bt] show ?thesis
        using dotdot clean_loop_dotdot_back[OF t True, of rooted] rest by simp
    next
      case False
      have nn: "\<not> \<not> rooted" using rooted by simp
      from dotdot obtain t where rest: "rest = CHR ''.'' # t" and t: "t = [] \<or> IsPathSeparator (hd t)"
        by (cases rest) auto
      from 2(5)[OF dotdot False nn rooted dd ds out] show ?thesis
        using dotdot clean_loop_dotdot_root[OF t False] rest rooted by simp
    qed
  next
    case elem
    have tw: "list_all (\<lambda>x. \<not> IsPathSeparator x) ?tw"
      by (auto simp: list_all_iff dest: set_takeWhileD)
    have nd: "c # ?tw \<noteq> ''.''"
    proof
      assume "c # ?tw = ''.''"
      then have "c = CHR ''.''" "?tw = []" by auto
      then have "c = CHR ''.'' \<and> (rest = [] \<or> IsPathSeparator (hd rest))"
        by (cases rest) (auto split: if_splits)
      with elem(2) show False by simp
    qed
    have ndd: "c # ?tw \<noteq> ''..''"
    proof
      assume a: "c # ?tw = ''..''"
      then have c: "c = CHR ''.''" and t: "?tw = ''.''" by auto
      from t obtain r rs where r: "rest = r # rs" by (cases rest) auto
      with t have "r = CHR ''.''" "takeWhile (\<lambda>x. \<not> IsPathSeparator x) rs = []"
        by (auto split: if_splits)
      then have "rs = [] \<or> IsPathSeparator (hd rs)" by (cases rs) (auto split: if_splits)
      with c r \<open>r = CHR ''.''\<close> elem(3) show False by simp
    qed
    have el: "element (c # ?tw)"
      using elem(1) tw nd ndd by (simp add: element_def)
    have out': "(if rooted \<and> length out \<noteq> 1 \<or> \<not> rooted \<and> length out \<noteq> 0 then out @ ''/'' else out)
                  @ c # ?tw = render (ds @ [c # ?tw])"
      using rooted out length_render_1[OF ds] by (auto simp: render_snoc render_def)
    have ds': "list_all element (ds @ [c # ?tw])" using ds el by simp
    from 2(6)[OF elem rooted dd ds' out'] show ?thesis
      by (simp only: clean_loop_elem[OF elem])
  qed
qed

lemma takeWhile_element:
  "list_all (\<lambda>x. \<not> IsPathSeparator x) xs \<Longrightarrow> rest = [] \<or> IsPathSeparator (hd rest) \<Longrightarrow>
   takeWhile (\<lambda>x. \<not> IsPathSeparator x) (xs @ rest) = xs \<and>
   dropWhile (\<lambda>x. \<not> IsPathSeparator x) (xs @ rest) = rest"
proof (induction xs)
  case Nil
  then show ?case by (cases rest) auto
next
  case (Cons a xs)
  then show ?case by simp
qed

lemma clean_loop_render:
  "list_all element cs \<Longrightarrow> list_all element ds \<Longrightarrow> cs \<noteq> [] \<Longrightarrow>
   clean_loop True (tl (concat (map (\<lambda>c. CHR ''/'' # c) cs))) (render ds) 1 = render (ds @ cs)"
proof (induction cs arbitrary: ds)
  case Nil
  then show ?case by simp
next
  case (Cons c cs)
  let ?rest = "concat (map (\<lambda>c. CHR ''/'' # c) cs)"
  from Cons.prems obtain x xs where c: "c = x # xs" and x: "\<not> IsPathSeparator x"
    and xs: "list_all (\<lambda>x. \<not> IsPathSeparator x) xs"
    by (cases c) (auto simp: element_def)
  have rest: "?rest = [] \<or> IsPathSeparator (hd ?rest)"
    by (cases cs) (auto simp: IsPathSeparator_def)
  have nd: "\<not> (x = CHR ''.'' \<and> (xs @ ?rest = [] \<or> IsPathSeparator (hd (xs @ ?rest))))"
  proof (cases xs)
    case Nil
    then show ?thesis using Cons.prems(1) c by (auto simp: element_def)
  next
    case (Cons y ys)
    then show ?thesis using xs by auto
  qed
  have ndd: "\<not> (x = CHR ''.'' \<and> xs @ ?rest \<noteq> [] \<and> hd (xs @ ?rest) = CHR ''.'' \<and>
                (tl (xs @ ?rest) = [] \<or> IsPathSeparator (hd (tl (xs @ ?rest)))))"
  proof (cases xs)
    case Nil
    then show ?thesis using rest by (auto simp: IsPathSeparator_def)
  next
    case (Cons y ys)
    show ?thesis
    proof (cases ys)
      case Nil
      then show ?thesis using Cons Cons.prems(1) c \<open>xs = y # ys\<close> by (auto simp: element_def)
    next
      case (Cons z zs)
      then show ?thesis using \<open>xs = y # ys\<close> xs by auto
    qed
  qed
  have out': "(if length (render ds) \<noteq> 1 then render ds @ ''/'' else render ds) @ x # xs
                = render (ds @ [c])"
    using length_render_1[OF Cons.prems(2)] c by (auto simp: render_snoc render_def)
  have dsc: "list_all element (ds @ [c])" using Cons.prems by simp
  have step: "clean_loop True (x # xs @ ?rest) (render ds) 1 = clean_loop True ?rest (render (ds @ [c])) 1"
    using clean_loop_elem[OF x nd ndd, of True "render ds" 1] takeWhile_element[OF xs rest] out'
    by (simp only: append_Cons simp_thms)
  show ?case
  proof (cases "cs = []")
    case True
    then show ?thesis using step c by simp
  next
    case False
    then obtain r where r: "?rest = CHR ''/'' # tl ?rest" by (cases cs) auto
    have "clean_loop True ?rest (render (ds @ [c])) 1
            = clean_loop True (tl ?rest) (render (ds @ [c])) 1"
      by (subst r) (simp add: IsPathSeparator_def)
    also have "\<dots> = render ((ds @ [c]) @ cs)"
      using Cons.IH[OF _ dsc False] Cons.prems(1) by simp
    finally show ?thesis using step c by simp
  qed
qed


lemma Clean_render: "list_all element cs \<Longrightarrow> filepath_Clean (render cs) = render cs"
proof (cases "cs = []")
  case True
  then show ?thesis by (simp add: render_def filepath_Clean_def IsPathSeparator_def)
next
  case False
  assume cs: "list_all element cs"
  have r: "render cs = CHR ''/'' # tl (concat (map (\<lambda>c. CHR ''/'' # c) cs))"
    using False by (cases cs) (auto simp: render_def)
  have "clean_loop True (tl (concat (map (\<lambda>c. CHR ''/'' # c) cs))) (render []) 1 = render ([] @ cs)"
    by (rule clean_loop_render[OF cs _ False]) simp
  moreover have "render cs \<noteq> []" using r by simp
  ultimately show ?thesis
    by (subst (1) r) (simp add: filepath_Clean_def IsPathSeparator_def render_def Let_def)
qed

lemma Clean_rooted_render:
  assumes "IsAbs p"
  shows "\<exists>es. list_all element es \<and> filepath_Clean p = render es"
proof -
  from assms obtain t where p: "p = CHR ''/'' # t"
    by (cases p) (auto simp: IsAbs_def IsPathSeparator_def)
  obtain es where es: "list_all element es" "clean_loop True t ''/'' 1 = render es"
    using clean_loop_canonical[of True 1 "[]" "''/''" t] by (auto simp: render_def)
  moreover have "render es \<noteq> []" by (cases es) (auto simp: render_def)
  ultimately show ?thesis using p
    by (auto simp: filepath_Clean_def IsPathSeparator_def Let_def)
qed

lemma Clean_idem: "IsAbs p \<Longrightarrow> filepath_Clean (filepath_Clean p) = filepath_Clean p"
  using Clean_rooted_render[of p] Clean_render by auto


section \<open>Parents of absolute paths\<close>

lemma dirpart_rooted:
  assumes "IsAbs p"
  shows "IsAbs (fst (filepath_Split p))" "IsPathSeparator (last (fst (filepath_Split p)))"
    "length (fst (filepath_Split p)) \<le> length p"
proof -
  let ?d = "dropWhile (\<lambda>x. \<not> IsPathSeparator x) (rev p)"
  from assms have ne: "rev p \<noteq> []" and l: "IsPathSeparator (last (rev p))"
    by (auto simp: IsAbs_def last_rev)
  from last_dropWhile_sep[OF ne l] have d: "?d \<noteq> []" "last ?d = last (rev p)" by auto
  have h: "IsPathSeparator (hd ?d)"
    using hd_dropWhile[OF d(1)] by simp
  show "IsAbs (fst (filepath_Split p))"
    using d l by (simp add: IsAbs_def filepath_Split_def hd_rev)
  show "IsPathSeparator (last (fst (filepath_Split p)))"
    using d h by (simp add: filepath_Split_def last_rev)
  show "length (fst (filepath_Split p)) \<le> length p"
    using length_dropWhile_le[of _ "rev p"] by (simp add: filepath_Split_def)
qed

lemma render_nonempty: "render es \<noteq> []"
  by (cases es) (auto simp: render_def)

lemma clean_loop_root_nonempty: "clean_loop True t ''/'' 1 \<noteq> []"
proof -
  obtain es where "clean_loop True t ''/'' 1 = render es"
    using clean_loop_canonical[of True 1 "[]" "''/''" t] by (auto simp: render_def)
  then show ?thesis by (simp add: render_nonempty)
qed

lemma Clean_rooted: "IsAbs p \<Longrightarrow> IsAbs (filepath_Clean p)"
  using Clean_rooted_render[of p] by (auto simp: IsAbs_def render_def IsPathSeparator_def neq_Nil_conv)

lemma Clean_length: 
  assumes "IsAbs p" shows "length (filepath_Clean p) \<le> length p"
proof -
  from assms obtain t where p: "p = CHR ''/'' # t"
    by (cases p) (auto simp: IsAbs_def IsPathSeparator_def)
  have "length (clean_loop True t ''/'' 1) \<le> length ''/'' + length t + slack t ''/''"
    by (rule clean_loop_length) simp
  moreover note clean_loop_root_nonempty[of t]
  ultimately show ?thesis using p
    by (simp add: filepath_Clean_def IsPathSeparator_def Let_def slack_def)
qed

lemma Clean_length_strict: 
  assumes "IsAbs p" "2 \<le> length p" "IsPathSeparator (last p)"
  shows "length (filepath_Clean p) < length p"
proof -
  from assms obtain t where p: "p = CHR ''/'' # t"
    by (cases p) (auto simp: IsAbs_def IsPathSeparator_def)
  have t: "t \<noteq> []" using assms(2) p by auto
  have lt: "IsPathSeparator (last t)" using assms(3) p t by simp
  have "length (clean_loop True t ''/'' 1) < length ''/'' + length t + slack t ''/''"
    by (rule clean_loop_length_strict[OF _ t lt]) simp
  moreover note clean_loop_root_nonempty[of t]
  ultimately show ?thesis using p
    by (simp add: filepath_Clean_def IsPathSeparator_def Let_def slack_def)
qed

lemma Clean_root: "filepath_Clean ''/'' = ''/''"
  by (simp add: filepath_Clean_def IsPathSeparator_def)

lemma Dir_rooted: "IsAbs p \<Longrightarrow> IsAbs (filepath_Dir p)"
  by (simp add: filepath_Dir_def Clean_rooted dirpart_rooted(1))

lemma Dir_length:
  assumes "IsAbs p" "p \<noteq> ''/''"
  shows "length (filepath_Dir p) < length p"
proof -
  let ?q = "fst (filepath_Split p)"
  have lp: "2 \<le> length p" using assms
    by (cases p; cases "tl p") (auto simp: IsAbs_def IsPathSeparator_def)
  note q = dirpart_rooted[OF assms(1)]
  show ?thesis
  proof (cases "2 \<le> length ?q")
    case True
    from Clean_length_strict[OF q(1) True q(2)] q(3) show ?thesis
      by (simp add: filepath_Dir_def)
  next
    case False
    then have "?q = ''/''" using q(1)
      by (cases ?q; cases "tl ?q") (auto simp: IsAbs_def IsPathSeparator_def)
    then show ?thesis using lp by (simp add: filepath_Dir_def Clean_root)
  qed
qed

lemma Dir_clean: "IsAbs p \<Longrightarrow> filepath_Clean (filepath_Dir p) = filepath_Dir p"
  by (simp add: filepath_Dir_def Clean_idem dirpart_rooted(1))

lemma dir_chain_snoc:
  "dir_chain xs \<Longrightarrow> xs \<noteq> [] \<Longrightarrow> last xs = filepath_Dir y \<Longrightarrow> dir_chain (xs @ [y])"
  by (induction xs rule: dir_chain.induct) auto

lemma ancestors_rooted:
  "IsAbs p \<Longrightarrow>
   \<exists>xs. ancestors p = Some (Inr xs) \<and> xs \<noteq> [] \<and> hd xs = ''/'' \<and> last xs = filepath_Clean p \<and>
        dir_chain (butlast xs) \<and> (filepath_Clean p = p \<longrightarrow> dir_chain xs) \<and>
        (p \<noteq> ''/'' \<longrightarrow> 2 \<le> length xs)"
proof (induction p rule: length_induct)
  case (1 p)
  show ?case
  proof (cases "p = ''/''")
    case True
    then show ?thesis by (simp add: ancestors.simps Clean_root)
  next
    case False
    have ne: "p \<noteq> []" using 1(2) by (simp add: IsAbs_def)
    from 1(1) Dir_length[OF 1(2) False] Dir_rooted[OF 1(2)]
    obtain ys where ys: "ancestors (filepath_Dir p) = Some (Inr ys)" "ys \<noteq> []" "hd ys = ''/''"
      "last ys = filepath_Clean (filepath_Dir p)"
      "filepath_Clean (filepath_Dir p) = filepath_Dir p \<longrightarrow> dir_chain ys"
      by blast
    have l: "last ys = filepath_Dir p" and c: "dir_chain ys"
      using ys Dir_clean[OF 1(2)] by auto
    have a: "ancestors p = Some (Inr (ys @ [filepath_Clean p]))"
      using False ne ys(1,2) by (subst ancestors.simps) simp
    have "filepath_Clean p = p \<longrightarrow> dir_chain (ys @ [filepath_Clean p])"
      using dir_chain_snoc[OF c ys(2), of p] l by auto
    then show ?thesis using a ys(2,3) c
      by (cases ys) (auto simp: Suc_le_eq)
  qed
qed


section \<open>The directory skeleton\<close>

lemma mset_Sort: "mset (Sort xs) = mset xs"
  by (simp add: Sort_def)

lemma sorted_Sort: "sorted (map (\<lambda>e. Count e CHR ''/'') (Sort xs))"
  by (simp add: Sort_def)


lemma ancestors_root: "ancestors ''/'' = Some (Inr [''/''])"
  by (simp add: ancestors.simps)

lemma ancestors_A_slash: "ancestors ''/A/'' = Some (Inr [''/'', ''/A'', ''/A''])"
  by code_simp

lemma DirSkeleton_eq:
  assumes "DirSkeleton_files (Files m) [] = Some (Inr tree0)"
    and "DirSkeleton_dirs (Directories m) tree0 [] = Some (Inr (tree, allDirs))"
  shows "DirSkeleton ro m =
           (case DirSkeleton_leaves (Directories m) tree (Sort (ro (map fst tree))) of
              Some e \<Rightarrow> Some (Inl e)
            | None \<Rightarrow> Some (Inr (filter (\<lambda>e. e \<noteq> ''/'') (Sort (ro (map fst tree))))))"
  by (simp add: DirSkeleton_def assms Let_def)

lemma DirSkeleton_Inr:
  assumes "DirSkeleton ro m = Some (Inr xs)"
  obtains tree0 tree allDirs where
    "DirSkeleton_files (Files m) [] = Some (Inr tree0)"
    "DirSkeleton_dirs (Directories m) tree0 [] = Some (Inr (tree, allDirs))"
    "DirSkeleton_leaves (Directories m) tree (Sort (ro (map fst tree))) = None"
    "xs = filter (\<lambda>e. e \<noteq> ''/'') (Sort (ro (map fst tree)))"
proof (cases "DirSkeleton_files (Files m) []")
  case None
  with assms show ?thesis by (simp add: DirSkeleton_def)
next
  case (Some r1)
  show ?thesis
  proof (cases r1)
    case (Inl e)
    with Some assms show ?thesis by (simp add: DirSkeleton_def)
  next
    case (Inr tree0)
    note f = Some[unfolded Inr]
    show ?thesis
    proof (cases "DirSkeleton_dirs (Directories m) tree0 []")
      case None
      with f assms show ?thesis by (simp add: DirSkeleton_def)
    next
      case (Some r2)
      show ?thesis
      proof (cases r2)
        case (Inl e)
        with Some f assms show ?thesis by (simp add: DirSkeleton_def)
      next
        case (Inr ta)
        obtain tree allDirs where ta: "ta = (tree, allDirs)" by (cases ta)
        note d = Some[unfolded Inr ta]
        from assms have "(case DirSkeleton_leaves (Directories m) tree (Sort (ro (map fst tree))) of
              Some e \<Rightarrow> Some (Inl e)
            | None \<Rightarrow> Some (Inr (filter (\<lambda>e. e \<noteq> ''/'') (Sort (ro (map fst tree)))))) = Some (Inr xs)"
          by (simp only: DirSkeleton_eq[OF f d])
        then have "DirSkeleton_leaves (Directories m) tree (Sort (ro (map fst tree))) = None"
          and "xs = filter (\<lambda>e. e \<noteq> ''/'') (Sort (ro (map fst tree)))"
          by (auto split: option.splits)
        with f d that show ?thesis by blast
      qed
    qed
  qed
qed

lemma Count_path_prefix: "path_prefix p q \<Longrightarrow> Count p CHR ''/'' < Count q CHR ''/''"
proof -
  assume pq: "path_prefix p q"
  then have "q = take (length p) q @ q ! length p # drop (Suc (length p)) q"
    using id_take_nth_drop[of "length p" q] by (simp add: path_prefix_def)
  with pq have "q = p @ CHR ''/'' # drop (Suc (length p)) q"
    by (simp add: path_prefix_def)
  then have "Count q CHR ''/'' = Count (p @ CHR ''/'' # drop (Suc (length p)) q) CHR ''/''"
    by simp
  then show ?thesis by (simp add: Count_def)
qed


section \<open>Validation\<close>

lemma validateDirName_None: "validateDirName p = None \<longleftrightarrow> p \<noteq> [] \<and> hd p = CHR ''/''"
  by (cases p) (auto simp: validateDirName_def)


lemma validateDirName_Some: "validateDirName p = Some e \<Longrightarrow> is_InvalidManifest e"
  by (auto simp: validateDirName_def is_InvalidManifest_def split: if_splits)

lemma validProject_iff:
  "validProject pId \<longleftrightarrow> HasPrefix pId ''project-'' \<or> HasPrefix pId ''container-''"
  by (simp add: validProject_def)

lemma Validate_files_None:
  "Validate_files fls = None \<longleftrightarrow>
     (\<forall>fl\<in>set fls. validProject (ManifestFile.ProjId fl) \<and> HasPrefix (FileId fl) ''file-'' \<and>
        validateDirName (Parent fl) = None)"
  by (induction fls) (auto split: option.splits)

lemma Validate_files_Some: "Validate_files fls = Some e \<Longrightarrow> is_InvalidManifest e"
  by (induction fls)
     (auto simp: is_InvalidManifest_def split: if_splits option.splits dest: validateDirName_Some)

lemma Validate_dirs_None:
  "Validate_dirs ds = None \<longleftrightarrow>
     (\<forall>d\<in>set ds. validProject (ManifestDir.ProjId d) \<and> validateDirName (Dirname d) = None)"
  by (induction ds) (auto split: option.splits)

lemma Validate_dirs_Some: "Validate_dirs ds = Some e \<Longrightarrow> is_InvalidManifest e"
  by (induction ds)
     (auto simp: is_InvalidManifest_def split: if_splits option.splits dest: validateDirName_Some)

lemma Validate_None:
  "Validate m = None \<longleftrightarrow> Validate_files (Files m) = None \<and> Validate_dirs (Directories m) = None"
  by (simp add: Validate_def split: option.splits)

lemma Validate_Some: "Validate m = Some e \<Longrightarrow> is_InvalidManifest e"
  by (auto simp: Validate_def split: option.splits dest: Validate_files_Some Validate_dirs_Some)


section \<open>A relative path\<close>

text \<open>
  \<open>ancestors\<close> does not return on the relative path \<open>data\<close>: its parent is \<open>.\<close>, which
  is its own parent.
\<close>

lemma Dir_dot: "filepath_Dir ''.'' = ''.''" by code_simp
lemma Dir_data: "filepath_Dir ''data'' = ''.''" by code_simp

lemma ancestors_relative_aux:
  assumes "ancestors p = Some r"
  shows "p \<noteq> ''.'' \<and> p \<noteq> ''data''"
proof (rule ancestors.raw_induct[where P = "\<lambda>p r. p \<noteq> ''.'' \<and> p \<noteq> ''data''", OF _ assms])
  fix anc :: "string \<Rightarrow> string list result" and p r
  assume IH: "\<And>x y. anc x = Some y \<Longrightarrow> x \<noteq> ''.'' \<and> x \<noteq> ''data''"
    and step: "(if p = [] \<or> p = ''/'' then Some (Inr [''/''])
      else Option.bind (anc (filepath_Dir p))
            (\<lambda>r. case r of Inl e \<Rightarrow> Some (Inl e)
                 | Inr ators \<Rightarrow>
                     if length ators = 0 then Some (Inl (Panic p))
                     else Some (Inr (ators @ [filepath_Clean p])))) = Some r"
  show "p \<noteq> ''.'' \<and> p \<noteq> ''data''"
  proof (rule ccontr)
    assume "\<not> (p \<noteq> ''.'' \<and> p \<noteq> ''data'')"
    then have d: "filepath_Dir p = ''.''" and ne: "p \<noteq> []" "p \<noteq> ''/''"
      using Dir_dot Dir_data by auto
    from step ne d obtain r' where "anc ''.'' = Some r'"
      by (auto simp: bind_eq_Some_conv)
    from IH[OF this] show False by simp
  qed
qed

lemma ancestors_data: "ancestors ''data'' = None"
  using ancestors_relative_aux[of "''data''"] by (cases "ancestors ''data''") auto


section \<open>The loops of the directory skeleton\<close>

lemma keys_record_all: "fst ` set (record_all ps tree) = set ps \<union> fst ` set tree"
  unfolding record_all_def
  by (induction ps arbitrary: tree) (auto simp: AList.dom_update)

lemma map_of_keys: "map_of al k \<noteq> None \<longleftrightarrow> k \<in> fst ` set al"
  by (simp add: map_of_eq_None_iff)

lemma ancestors_abs:
  assumes "IsAbs p"
  obtains ps where "ancestors p = Some (Inr ps)"
  using ancestors_rooted[OF assms] by blast

lemma DirSkeleton_files_abs:
  "\<forall>fl\<in>set fls. IsAbs (Parent fl) \<Longrightarrow>
   \<exists>t'. DirSkeleton_files fls t = Some (Inr t') \<and> fst ` set t \<subseteq> fst ` set t'"
proof (induction fls arbitrary: t)
  case Nil
  then show ?case by simp
next
  case (Cons fl fls)
  then obtain ps where ps: "ancestors (Parent fl) = Some (Inr ps)"
    by (auto elim: ancestors_abs)
  from Cons.IH[of "record_all ps t"] Cons.prems
  obtain t' where "DirSkeleton_files fls (record_all ps t) = Some (Inr t')"
    "fst ` set (record_all ps t) \<subseteq> fst ` set t'" by auto
  then show ?case using ps by (auto simp: keys_record_all)
qed

lemma DirSkeleton_dirs_distinct:
  "\<forall>d\<in>set ds. IsAbs (Dirname d) \<Longrightarrow> distinct (map Dirname ds) \<Longrightarrow>
   \<forall>d\<in>set ds. Dirname d \<notin> fst ` set a \<Longrightarrow>
   \<exists>t' a'. DirSkeleton_dirs ds t a = Some (Inr (t', a')) \<and> fst ` set t \<subseteq> fst ` set t' \<and>
     (\<forall>d\<in>set ds. \<forall>ps. ancestors (fst (filepath_Split (Dirname d))) = Some (Inr ps)
         \<longrightarrow> set ps \<subseteq> fst ` set t')"
proof (induction ds arbitrary: t a)
  case Nil
  then show ?case by simp
next
  case (Cons d ds)
  from Cons.prems(1) have "IsAbs (fst (filepath_Split (Dirname d)))"
    by (simp add: dirpart_rooted(1))
  then obtain ps where ps: "ancestors (fst (filepath_Split (Dirname d))) = Some (Inr ps)"
    by (auto elim: ancestors_abs)
  have fresh: "map_of a (Dirname d) = None"
    using Cons.prems(3) map_of_keys[of a "Dirname d"] by auto
  have "Dirname d' \<notin> fst ` set (AList.update (Dirname d) True a)" if "d' \<in> set ds" for d'
  proof -
    from Cons.prems(2) have "Dirname d \<notin> Dirname ` set ds" by simp
    with that have "Dirname d' \<noteq> Dirname d" by (metis imageI)
    moreover from that Cons.prems(3) have "Dirname d' \<notin> fst ` set a" by simp
    ultimately show ?thesis by (simp add: AList.dom_update)
  qed
  then have "\<forall>d'\<in>set ds. Dirname d' \<notin> fst ` set (AList.update (Dirname d) True a)"
    by blast
  from Cons.IH[OF _ _ this, of "record_all ps t"] Cons.prems(1,2)
  obtain t' a' where r: "DirSkeleton_dirs ds (record_all ps t) (AList.update (Dirname d) True a)
        = Some (Inr (t', a'))"
    and sub: "fst ` set (record_all ps t) \<subseteq> fst ` set t'"
    and anc: "\<forall>d\<in>set ds. \<forall>ps. ancestors (fst (filepath_Split (Dirname d))) = Some (Inr ps)
         \<longrightarrow> set ps \<subseteq> fst ` set t'"
    by auto
  have "DirSkeleton_dirs (d # ds) t a = Some (Inr (t', a'))"
    using ps fresh r by simp
  moreover have "fst ` set t \<subseteq> fst ` set t'" "set ps \<subseteq> fst ` set t'"
    using sub by (auto simp: keys_record_all)
  ultimately show ?case using anc ps by auto
qed

lemma DirSkeleton_dirs_duplicate:
  "\<forall>d\<in>set ds. IsAbs (Dirname d) \<Longrightarrow>
   \<not> (distinct (map Dirname ds) \<and> (\<forall>d\<in>set ds. Dirname d \<notin> fst ` set a)) \<Longrightarrow>
   \<exists>p. DirSkeleton_dirs ds t a = Some (Inl (DuplicateMount p))"
proof (induction ds arbitrary: t a)
  case Nil
  then show ?case by simp
next
  case (Cons d ds)
  from Cons.prems(1) have "IsAbs (fst (filepath_Split (Dirname d)))"
    by (simp add: dirpart_rooted(1))
  then obtain ps where ps: "ancestors (fst (filepath_Split (Dirname d))) = Some (Inr ps)"
    by (auto elim: ancestors_abs)
  show ?case
  proof (cases "map_of a (Dirname d) = None")
    case False
    then show ?thesis using ps by simp
  next
    case True
    then have "Dirname d \<notin> fst ` set a" using map_of_keys[of a "Dirname d"] by simp
    with Cons.prems(2) have
      "\<not> (distinct (map Dirname ds) \<and>
          (\<forall>d'\<in>set ds. Dirname d' \<notin> fst ` set (AList.update (Dirname d) True a)))"
      by (auto simp: AList.dom_update)
    from Cons.IH[OF _ this, of "record_all ps t"] Cons.prems(1)
    show ?thesis using ps True by simp
  qed
qed

lemma DirSkeleton_leaves_hit:
  "\<exists>d\<in>set ds. Dirname d \<in> fst ` set tree \<Longrightarrow>
   \<exists>p. DirSkeleton_leaves ds tree es = Some (IllegalMountNotLeaf p es)"
  by (induction ds) (auto simp: map_of_eq_None_iff)

lemma DirSkeleton_duplicate:
  assumes "\<forall>fl\<in>set (Files m). IsAbs (Parent fl)"
    and "\<forall>d\<in>set (Directories m). IsAbs (Dirname d)"
    and "\<not> distinct (map Dirname (Directories m))"
  shows "\<exists>p. DirSkeleton ro m = Some (Inl (DuplicateMount p))"
proof -
  from DirSkeleton_files_abs[OF assms(1), of "[]"]
  obtain t0 where f: "DirSkeleton_files (Files m) [] = Some (Inr t0)" by blast
  from DirSkeleton_dirs_duplicate[OF assms(2), of "[]" t0] assms(3)
  obtain p where "DirSkeleton_dirs (Directories m) t0 [] = Some (Inl (DuplicateMount p))"
    by auto
  with f show ?thesis by (simp add: DirSkeleton_def)
qed

lemma DirSkeleton_not_leaf:
  assumes "\<forall>fl\<in>set (Files m). IsAbs (Parent fl)"
    and "\<forall>d\<in>set (Directories m). IsAbs (Dirname d)"
    and "distinct (map Dirname (Directories m))"
    and "d \<in> set (Directories m)" and "d' \<in> set (Directories m)"
    and "ancestors (fst (filepath_Split (Dirname d'))) = Some (Inr ps)"
    and "Dirname d \<in> set ps"
  shows "\<exists>p es. DirSkeleton ro m = Some (Inl (IllegalMountNotLeaf p es))"
proof -
  from DirSkeleton_files_abs[OF assms(1), of "[]"]
  obtain t0 where f: "DirSkeleton_files (Files m) [] = Some (Inr t0)" by blast
  from DirSkeleton_dirs_distinct[OF assms(2,3), of "[]" t0]
  obtain t a where d: "DirSkeleton_dirs (Directories m) t0 [] = Some (Inr (t, a))"
    and anc: "\<forall>d\<in>set (Directories m). \<forall>ps. ancestors (fst (filepath_Split (Dirname d))) = Some (Inr ps)
         \<longrightarrow> set ps \<subseteq> fst ` set t"
    by auto
  from anc assms(5,6,7) have "Dirname d \<in> fst ` set t" by blast
  with assms(4) have "\<exists>d\<in>set (Directories m). Dirname d \<in> fst ` set t" by blast
  from DirSkeleton_leaves_hit[OF this, of "Sort (ro (map fst t))"]
  obtain p where "DirSkeleton_leaves (Directories m) t (Sort (ro (map fst t)))
      = Some (IllegalMountNotLeaf p (Sort (ro (map fst t))))" by blast
  then show ?thesis by (simp add: DirSkeleton_eq[OF f d])
qed


section \<open>Filling in missing fields\<close>


















section \<open>Decoding a serialised manifest\<close>


lemma fields_append:
  "decode_fields f x (xs @ ys) = (case decode_fields f x xs of Inl e \<Rightarrow> Inl e | Inr y \<Rightarrow> decode_fields f y ys)"
  by (induction xs arbitrary: x) (auto split: sum.splits)








section \<open>The claims\<close>

text \<open>
  C1. For the manifest without files whose directory entries mount \<open>/A/B\<close>, \<open>/D\<close> and
  \<open>/A/E\<close>, whatever their projects and source folders, \<open>DirSkeleton\<close> returns exactly
  the list \<open>[/A]\<close>, in every iteration order of the tree map: the three mounts are leaves,
  \<open>/A\<close> is the only intermediate directory and the root is left out.
\<close>

theorem skeleton_S1:
  assumes ro: "range_order ro"
    and files: "Files m = []"
    and dirs: "map Dirname (Directories m) = [''/A/B'', ''/D'', ''/A/E'']"
  shows "DirSkeleton ro m = Some (Inr [''/A''])"
proof -
  obtain d1 d2 d3 where ds: "Directories m = [d1, d2, d3]"
    and n1: "Dirname d1 = ''/A/B''" and n2: "Dirname d2 = ''/D''" and n3: "Dirname d3 = ''/A/E''"
    using dirs by (auto simp: map_eq_Cons_conv)
  have s1: "fst (filepath_Split ''/A/B'') = ''/A/''" by code_simp
  have s2: "fst (filepath_Split ''/D'') = ''/''" by code_simp
  have s3: "fst (filepath_Split ''/A/E'') = ''/A/''" by code_simp
  have walk: "DirSkeleton_dirs (Directories m) [] [] =
      Some (Inr ([(''/'', True), (''/A'', True)],
                 [(''/A/B'', True), (''/D'', True), (''/A/E'', True)]))"
    by (simp add: ds n1 n2 n3 s1 s2 s3 ancestors_A_slash ancestors_root record_all_def)
  have leaves: "DirSkeleton_leaves (Directories m) [(''/'', True), (''/A'', True)] de = None" for de
    by (simp add: ds n1 n2 n3)
  have "mset (filter (\<lambda>e. e \<noteq> ''/'') (Sort (ro [''/'', ''/A'']))) = {#''/A''#}"
    using ro by (simp add: mset_Sort range_order_def)
  then have out: "filter (\<lambda>e. e \<noteq> ''/'') (Sort (ro [''/'', ''/A''])) = [''/A'']"
    by (simp only: mset_single_iff)
  show ?thesis
    by (simp add: DirSkeleton_def files walk leaves out)
qed

theorem skeleton_S1_witness:
  "DirSkeleton rev \<lparr>Files = [], Directories = [mount ''/A/B'', mount ''/D'', mount ''/A/E'']\<rparr>
     = Some (Inr [''/A''])"
  by (rule skeleton_S1) (simp_all add: range_order_def mount_def)

text \<open>
  C2. Whenever \<open>DirSkeleton\<close> returns a list, the list is sorted by ascending number of
  \<open>/\<close> separators, and so a returned path that is an ancestor directory of another
  returned path (the other path continues it with a separator) stands earlier in the list.
\<close>

theorem DirSkeleton_parents_first:
  assumes "DirSkeleton ro m = Some (Inr xs)"
  shows "sorted (map (\<lambda>e. Count e CHR ''/'') xs) \<and>
         (\<forall>i j. i < length xs \<and> j < length xs \<and> path_prefix (xs ! i) (xs ! j) \<longrightarrow> i < j)"
proof -
  from DirSkeleton_Inr[OF assms] obtain tree :: "(string \<times> bool) list"
    where xs: "xs = filter (\<lambda>e. e \<noteq> ''/'') (Sort (ro (map fst tree)))" by metis
  have s: "sorted (map (\<lambda>e. Count e CHR ''/'') xs)"
    unfolding xs by (rule sorted_filter) (rule sorted_Sort)
  have "i < j" if i: "i < length xs" and j: "j < length xs"
    and pq: "path_prefix (xs ! i) (xs ! j)" for i j
  proof (rule ccontr)
    assume "\<not> i < j"
    then have "j \<le> i" by simp
    with s i have "map (\<lambda>e. Count e CHR ''/'') xs ! j \<le> map (\<lambda>e. Count e CHR ''/'') xs ! i"
      by (intro sorted_nth_mono) simp_all
    with i j have "Count (xs ! j) CHR ''/'' \<le> Count (xs ! i) CHR ''/''" by simp
    with Count_path_prefix[OF pq] show False by simp
  qed
  with s show ?thesis by blast
qed

theorem DirSkeleton_parents_first_witness:
  "DirSkeleton rev \<lparr>Files = [], Directories = [mount ''/A/B/C'', mount ''/D/E'']\<rparr>
     = Some (Inr [''/D'', ''/A'', ''/A/B''])
   \<and> sorted (map (\<lambda>e. Count e CHR ''/'') [''/D'', ''/A'', ''/A/B''])
   \<and> path_prefix ([''/D'', ''/A'', ''/A/B''] ! 1) ([''/D'', ''/A'', ''/A/B''] ! 2)
   \<and> (1 :: nat) < 2"
proof -
  have h: "DirSkeleton rev \<lparr>Files = [], Directories = [mount ''/A/B/C'', mount ''/D/E'']\<rparr>
             = Some (Inr [''/D'', ''/A'', ''/A/B''])"
    by code_simp
  have p: "path_prefix ([''/D'', ''/A'', ''/A/B''] ! 1) ([''/D'', ''/A'', ''/A/B''] ! 2)"
    by (simp add: path_prefix_def)
  from DirSkeleton_parents_first[OF h] p h show ?thesis by simp
qed




text \<open>
  C5. \<open>Validate\<close> succeeds exactly when every file entry has a project id prefixed
  \<open>project-\<close> or \<open>container-\<close>, a file id prefixed \<open>file-\<close> and a non-empty parent
  path whose first character is a slash, and every directory entry has a project id with
  one of the two prefixes and a non-empty mount path whose first character is a slash;
  every error it returns is an \<open>InvalidManifest\<close> error.
\<close>

theorem Validate_iff:
  "(Validate m = None \<longleftrightarrow>
      (\<forall>fl\<in>set (Files m).
          (HasPrefix (ManifestFile.ProjId fl) ''project-'' \<or> HasPrefix (ManifestFile.ProjId fl) ''container-'')
          \<and> HasPrefix (FileId fl) ''file-''
          \<and> Parent fl \<noteq> [] \<and> hd (Parent fl) = CHR ''/'')
      \<and> (\<forall>d\<in>set (Directories m).
          (HasPrefix (ManifestDir.ProjId d) ''project-'' \<or> HasPrefix (ManifestDir.ProjId d) ''container-'')
          \<and> Dirname d \<noteq> [] \<and> hd (Dirname d) = CHR ''/''))
   \<and> (\<forall>e. Validate m = Some e \<longrightarrow> is_InvalidManifest e)"
  by (auto simp: Validate_None Validate_files_None Validate_dirs_None validProject_iff
        validateDirName_None dest: Validate_Some)

theorem Validate_iff_witness:
  "Validate \<lparr>Files = [file_in ''container-9'' ''/data''], Directories = [mount ''/A/B'']\<rparr> = None
   \<and> is_InvalidManifest (InvalidManifest (EmptyDirectory []))
   \<and> Validate \<lparr>Files = [file_in ''container-9'' []], Directories = []\<rparr>
        = Some (InvalidManifest (EmptyDirectory []))"
proof -
  let ?m = "\<lparr>Files = [file_in ''container-9'' ''/data''], Directories = [mount ''/A/B'']\<rparr>"
  let ?n = "\<lparr>Files = [file_in ''container-9'' []], Directories = []\<rparr>"
  have n: "Validate ?n = Some (InvalidManifest (EmptyDirectory []))" by code_simp
  from Validate_iff[of ?m] have "Validate ?m = None"
    by (simp add: file_in_def mount_def HasPrefix_def)
  moreover from Validate_iff[of ?n] n have "is_InvalidManifest (InvalidManifest (EmptyDirectory []))"
    by simp
  ultimately show ?thesis using n by simp
qed


text \<open>
  C6. A manifest with a file entry whose project id is \<open>foo-123\<close> fails validation with
  an \<open>InvalidManifest\<close> error, and so does reading a manifest file that decodes to it.
  \<open>Validate\<close> and \<open>ReadManifest\<close> are functions of the manifest alone: they are given
  no remote describe operation, so the failure precedes every network call.
\<close>

theorem invalid_project_fails:
  assumes "fl \<in> set (Files m)" and "ManifestFile.ProjId fl = ''foo-123''"
  shows "(\<exists>i. Validate m = Some (InvalidManifest i))
         \<and> (\<forall>data. Unmarshal data = Inr m \<longrightarrow> (\<exists>i. ReadManifest data = Inl (InvalidManifest i)))"
proof -
  have "\<not> validProject ''foo-123''" by (simp add: validProject_def HasPrefix_def)
  with assms have "\<not> (\<forall>fl\<in>set (Files m). validProject (ManifestFile.ProjId fl) \<and>
        HasPrefix (FileId fl) ''file-'' \<and> validateDirName (Parent fl) = None)"
    by metis
  then have "Validate_files (Files m) \<noteq> None"
    by (simp only: Validate_files_None not_False_eq_True)
  then obtain e where e: "Validate m = Some e" by (auto simp: Validate_def)
  from Validate_Some[OF e] obtain i where "e = InvalidManifest i"
    by (cases e) (auto simp: is_InvalidManifest_def)
  with e show ?thesis by (auto simp: ReadManifest_def)
qed

theorem invalid_project_fails_witness:
  "file_in ''foo-123'' ''/data'' \<in> set (Files \<lparr>Files = [file_in ''foo-123'' ''/data''], Directories = []\<rparr>)
   \<and> ManifestFile.ProjId (file_in ''foo-123'' ''/data'') = ''foo-123''
   \<and> (\<exists>i. Validate \<lparr>Files = [file_in ''foo-123'' ''/data''], Directories = []\<rparr> = Some (InvalidManifest i))"
proof -
  have a: "file_in ''foo-123'' ''/data'' \<in> set (Files \<lparr>Files = [file_in ''foo-123'' ''/data''], Directories = []\<rparr>)"
    by simp
  have b: "ManifestFile.ProjId (file_in ''foo-123'' ''/data'') = ''foo-123''"
    by (simp add: file_in_def)
  from invalid_project_fails[OF a b] a b show ?thesis by blast
qed


text \<open>
  C3, as amended. For every manifest whose file parent paths and mount paths are absolute
  and whose mount paths are pairwise distinct, and which has directory entries mounting
  \<open>/A\<close> and \<open>/A/B\<close>, \<open>DirSkeleton\<close> fails with the \<open>IllegalMountNotLeaf\<close> error, in every
  iteration order of the tree map: \<open>/A\<close> is among the intermediate directories recorded
  for \<open>/A/B\<close>.
\<close>

theorem nested_mount_illegal:
  assumes "\<forall>fl\<in>set (Files m). IsAbs (Parent fl)"
    and "\<forall>d\<in>set (Directories m). IsAbs (Dirname d)"
    and "distinct (map Dirname (Directories m))"
    and "''/A'' \<in> Dirname ` set (Directories m)"
    and "''/A/B'' \<in> Dirname ` set (Directories m)"
  shows "fails_IllegalMountNotLeaf (DirSkeleton ro m)"
proof -
  from assms(4,5) obtain d d' where d: "d \<in> set (Directories m)" "Dirname d = ''/A''"
    and d': "d' \<in> set (Directories m)" "Dirname d' = ''/A/B''" by auto
  have s: "fst (filepath_Split ''/A/B'') = ''/A/''" by code_simp
  have "ancestors (fst (filepath_Split (Dirname d'))) = Some (Inr [''/'', ''/A'', ''/A''])"
    by (simp only: d'(2) s ancestors_A_slash)
  from DirSkeleton_not_leaf[OF assms(1,2,3) d(1) d'(1) this, of ro] d(2)
  show ?thesis by (auto simp: fails_IllegalMountNotLeaf_def)
qed

theorem nested_mount_illegal_witness:
  "fails_IllegalMountNotLeaf
     (DirSkeleton rev \<lparr>Files = [file_in ''project-1'' ''/A/B/C''],
                       Directories = [mount ''/A'', mount ''/A/B'']\<rparr>)"
  by (rule nested_mount_illegal)
     (simp_all add: mount_def file_in_def IsAbs_def IsPathSeparator_def)

text \<open>
  C3, as the claim states it, fails in two ways. When a mount path occurs twice, the
  duplicate is reported first; and a relative parent path in a file entry sends
  \<open>ancestors\<close> into a recursion that never returns.
\<close>

theorem nested_mount_illegal_counterexample:
  "DirSkeleton rev \<lparr>Files = [], Directories = [mount ''/A'', mount ''/A/B'', mount ''/A/B'']\<rparr>
     = Some (Inl (DuplicateMount ''/A/B''))
   \<and> \<not> fails_IllegalMountNotLeaf
       (DirSkeleton rev \<lparr>Files = [], Directories = [mount ''/A'', mount ''/A/B'', mount ''/A/B'']\<rparr>)
   \<and> DirSkeleton rev \<lparr>Files = [file_in ''project-1'' ''data''],
                       Directories = [mount ''/A'', mount ''/A/B'']\<rparr> = None"
proof -
  have "DirSkeleton rev \<lparr>Files = [], Directories = [mount ''/A'', mount ''/A/B'', mount ''/A/B'']\<rparr>
     = Some (Inl (DuplicateMount ''/A/B''))"
    by code_simp
  moreover have "DirSkeleton rev \<lparr>Files = [file_in ''project-1'' ''data''],
                       Directories = [mount ''/A'', mount ''/A/B'']\<rparr> = None"
    by (simp add: DirSkeleton_def file_in_def ancestors_data)
  ultimately show ?thesis by (simp add: fails_IllegalMountNotLeaf_def)
qed

text \<open>
  C4, as amended. For every manifest whose file parent paths and mount paths are absolute
  and in which two directory entries have the same mount path, \<open>DirSkeleton\<close> fails with
  the \<open>DuplicateMount\<close> error, in every iteration order of the tree map.
\<close>

theorem duplicate_mount:
  assumes "\<forall>fl\<in>set (Files m). IsAbs (Parent fl)"
    and "\<forall>d\<in>set (Directories m). IsAbs (Dirname d)"
    and "\<not> distinct (map Dirname (Directories m))"
  shows "fails_DuplicateMount (DirSkeleton ro m)"
  using DirSkeleton_duplicate[OF assms, of ro] by (auto simp: fails_DuplicateMount_def)

theorem duplicate_mount_witness:
  "fails_DuplicateMount
     (DirSkeleton rev \<lparr>Files = [file_in ''project-1'' ''/A''],
                       Directories = [mount ''/X'', mount ''/Y'', mount ''/X'']\<rparr>)"
  by (rule duplicate_mount) (simp_all add: mount_def file_in_def IsAbs_def IsPathSeparator_def)

text \<open>
  C4, as the claim states it, fails for a manifest with a relative parent path: the files
  are walked before the directories, and \<open>ancestors\<close> of a relative path never returns.
\<close>

theorem duplicate_mount_counterexample:
  "\<not> distinct (map Dirname (Directories
        \<lparr>Files = [file_in ''project-1'' ''data''], Directories = [mount ''/X'', mount ''/X'']\<rparr>))
   \<and> DirSkeleton rev \<lparr>Files = [file_in ''project-1'' ''data''],
                       Directories = [mount ''/X'', mount ''/X'']\<rparr> = None
   \<and> \<not> fails_DuplicateMount
       (DirSkeleton rev \<lparr>Files = [file_in ''project-1'' ''data''],
                         Directories = [mount ''/X'', mount ''/X'']\<rparr>)"
proof -
  have "DirSkeleton rev \<lparr>Files = [file_in ''project-1'' ''data''],
                       Directories = [mount ''/X'', mount ''/X'']\<rparr> = None"
    by (simp add: DirSkeleton_def file_in_def ancestors_data)
  then show ?thesis by (simp add: fails_DuplicateMount_def mount_def)
qed

text \<open>
  C9, as amended. \<open>DirSkeleton\<close> has no check of its own for a mount path equal to \<open>/\<close>
  and no \<open>InvalidMountPath\<close> error. For every manifest whose file parent paths and mount
  paths are absolute and which has a directory entry mounted at \<open>/\<close>, it returns no
  skeleton: it fails with \<open>IllegalMountNotLeaf\<close> when the mount paths are pairwise
  distinct (the root is always among the intermediate directories) and with
  \<open>DuplicateMount\<close> otherwise.
\<close>

theorem root_mount_rejected:
  assumes "\<forall>fl\<in>set (Files m). IsAbs (Parent fl)"
    and "\<forall>d\<in>set (Directories m). IsAbs (Dirname d)"
    and "''/'' \<in> Dirname ` set (Directories m)"
  shows "(if distinct (map Dirname (Directories m))
          then fails_IllegalMountNotLeaf (DirSkeleton ro m)
          else fails_DuplicateMount (DirSkeleton ro m))
         \<and> \<not> fails_InvalidMountPath (DirSkeleton ro m)"
proof (cases "distinct (map Dirname (Directories m))")
  case True
  from assms(3) obtain d where d: "d \<in> set (Directories m)" "Dirname d = ''/''" by auto
  have s: "fst (filepath_Split ''/'') = ''/''" by code_simp
  have "ancestors (fst (filepath_Split (Dirname d))) = Some (Inr [''/''])"
    by (simp only: d(2) s ancestors_root)
  from DirSkeleton_not_leaf[OF assms(1,2) True d(1) d(1) this, of ro] d(2) True
  show ?thesis by (auto simp: fails_IllegalMountNotLeaf_def fails_InvalidMountPath_def)
next
  case False
  from DirSkeleton_duplicate[OF assms(1,2) False, of ro] False
  show ?thesis by (auto simp: fails_DuplicateMount_def fails_InvalidMountPath_def)
qed

theorem root_mount_rejected_witness:
  "fails_IllegalMountNotLeaf
     (DirSkeleton rev \<lparr>Files = [file_in ''project-1'' ''/A''], Directories = [mount ''/D'', mount ''/'']\<rparr>)
   \<and> \<not> fails_InvalidMountPath
     (DirSkeleton rev \<lparr>Files = [file_in ''project-1'' ''/A''], Directories = [mount ''/D'', mount ''/'']\<rparr>)"
  using root_mount_rejected[of "\<lparr>Files = [file_in ''project-1'' ''/A''],
                                  Directories = [mount ''/D'', mount ''/'']\<rparr>" rev]
  by (simp add: mount_def file_in_def IsAbs_def IsPathSeparator_def)

text \<open>
  C9, as the claim states it, fails: a manifest whose only directory entry is mounted at
  \<open>/\<close> passes \<open>validateDirName\<close> and is rejected by \<open>DirSkeleton\<close> with the
  \<open>IllegalMountNotLeaf\<close> error, not with an \<open>InvalidMountPath\<close> error.
\<close>

theorem root_mount_rejected_counterexample:
  "validateDirName ''/'' = None
   \<and> DirSkeleton rev \<lparr>Files = [], Directories = [mount ''/'']\<rparr>
       = Some (Inl (IllegalMountNotLeaf ''/'' [''/'']))
   \<and> \<not> fails_InvalidMountPath (DirSkeleton rev \<lparr>Files = [], Directories = [mount ''/'']\<rparr>)"
proof -
  have "DirSkeleton rev \<lparr>Files = [], Directories = [mount ''/'']\<rparr>
       = Some (Inl (IllegalMountNotLeaf ''/'' [''/'']))"
    by code_simp
  moreover have "validateDirName ''/'' = None" by code_simp
  ultimately show ?thesis by (simp add: fails_InvalidMountPath_def)
qed











end
